theory Spec2Isabelle
  imports Main "HOL-Library.Word"
begin

unbundle bit_operations_syntax

section \<open>Strings of UTF-16 code units\<close>

text \<open>
  A JavaScript string is a sequence of 16-bit code units. \<open>charCodeAt\<close> reads one
  unit, \<open>String.fromCharCode\<close> builds a string from units (reducing its argument
  modulo \<open>2 ^ 16\<close>), and the bit operators \<open>&\<close> and \<open>^\<close> on two values
  below \<open>2 ^ 16\<close> are the bitwise operations on 16-bit words.
\<close>

type_synonym unit16 = "16 word"
type_synonym jsstring = "unit16 list"

section \<open>Decode logic: the rolling XOR transform\<close>

text \<open>
  The loop of \<open>xor\<close> (source lines 33 to 38): \<open>e\<close> is the table of masked key
  units, \<open>d\<close> its length, \<open>c\<close> the rolling index, \<open>m\<close> the output built so far.
  The list argument holds the units of \<open>b\<close> from position \<open>h\<close> on.
\<close>

fun xor_loop :: "unit16 list \<Rightarrow> nat \<Rightarrow> nat \<Rightarrow> jsstring \<Rightarrow> jsstring \<Rightarrow> jsstring" where
  "xor_loop e d c [] m = m"
| "xor_loop e d c (l # b) m =
     (let m' = m @ [if l AND 224 \<noteq> 0 then l XOR e ! c else l];
          c' = c + 1;
          c'' = (if c' = d then 0 else c')
      in xor_loop e d c'' b m')"

text \<open>
  \<open>xor_js b c\<close> is the source's \<open>xor(b, c)\<close> (lines 26 to 40). The call \<open>c.replace(...)\<close> of line 28
  discards its result and changes nothing. \<open>d\<close> is the key length capped at 32 and
  \<open>e[h] = c.charCodeAt(h) & 31\<close> for \<open>h < d\<close>.
\<close>

definition xor_d :: "jsstring \<Rightarrow> nat" where
  "xor_d c = (if length c < 32 then length c else 32)"

definition xor_e :: "jsstring \<Rightarrow> unit16 list" where
  "xor_e c = map (\<lambda>h. c ! h AND 31) [0..<xor_d c]"

definition xor_js :: "jsstring \<Rightarrow> jsstring \<Rightarrow> jsstring" where
  "xor_js b c = (if c = [] then b else xor_loop (xor_e c) (xor_d c) 0 b [])"

section \<open>The syntax tree\<close>

text \<open>
  The part of the Babel tree that the passes inspect or build. Each constructor is a
  node type and carries the fields the traversal visits, in Babel's visiting order.
  Numbers are the integers (the numeric literals of the byte arrays and of table
  indices); names and string values are \<open>string\<close>s. An array hole is \<open>None\<close>.
  \<open>MemberExpression object property computed\<close>; \<open>ObjectProperty key value computed\<close>;
  \<open>AssignmentExpression operator left right\<close>; \<open>UpdateExpression operator prefix argument\<close>;
  \<open>UnaryExpression operator argument\<close>; \<open>BinaryExpression operator left right\<close>;
  \<open>CallExpression callee arguments\<close>; \<open>FunctionExpression params body\<close>.
\<close>

datatype node =
    Identifier string
  | StringLiteral string
  | NumericLiteral int
  | BooleanLiteral bool
  | NullLiteral
  | ArrayExpression "node option list"
  | ObjectExpression "node list"
  | ObjectProperty node node bool
  | MemberExpression node node bool
  | OptionalMemberExpression node node bool
  | AssignmentExpression string node node
  | UpdateExpression string bool node
  | UnaryExpression string node
  | BinaryExpression string node node
  | CallExpression node "node list"
  | FunctionExpression "node list" node
  | BlockStatement "node list"
  | ReturnStatement "node option"
  | ExpressionStatement node
  | Program "node list"

text \<open>
  Reading the field \<open>object\<close> or \<open>property\<close> of a node: only the two member
  expression types have them; on any other node the read gives \<open>undefined\<close>.
\<close>

fun object_of :: "node \<Rightarrow> node option" where
  "object_of (MemberExpression ob pr c) = Some ob"
| "object_of (OptionalMemberExpression ob pr c) = Some ob"
| "object_of _ = None"

fun property_of :: "node \<Rightarrow> node option" where
  "property_of (MemberExpression ob pr c) = Some pr"
| "property_of (OptionalMemberExpression ob pr c) = Some pr"
| "property_of _ = None"

text \<open>\<open>t.isIdentifier(x, { name: n })\<close>, where \<open>x\<close> may be \<open>undefined\<close>.\<close>

definition isIdentifier :: "node option \<Rightarrow> string \<Rightarrow> bool" where
  "isIdentifier x n = (x = Some (Identifier n))"

fun isMemberExpression :: "node \<Rightarrow> bool" where
  "isMemberExpression (MemberExpression ob pr c) = True"
| "isMemberExpression _ = False"

fun isReturnStatement :: "node \<Rightarrow> bool" where
  "isReturnStatement (ReturnStatement a) = True"
| "isReturnStatement _ = False"

text \<open>
  The decimal digits of a natural number: the name of the \<open>i\<close>-th element of an
  array, and of the constant indices into \<open>decoded.t\<close>.
\<close>

fun dec_nat :: "nat \<Rightarrow> string" where
  "dec_nat n = (if n < 10 then [char_of (48 + n)]
                else dec_nat (n div 10) @ [char_of (48 + n mod 10)])"

declare dec_nat.simps [simp del]

text \<open>
  \<open>staticPropName\<close> (source lines 68 to 73); \<open>None\<close> is the source's \<open>null\<close>.
  The conversion \<open>String(prop.value)\<close> of a number to its name belongs to the
  platform, like \<open>JSON.parse\<close> and \<open>atob\<close> below: it is the parameter \<open>str\<close> of
  this function and of every function that calls it.
\<close>

type_synonym number_names = "int \<Rightarrow> string"

fun staticPropName :: "number_names \<Rightarrow> node \<Rightarrow> string option" where
  "staticPropName str (Identifier name) = Some name"
| "staticPropName str (StringLiteral v) = Some v"
| "staticPropName str (NumericLiteral v) = Some (str v)"
| "staticPropName str _ = None"

text \<open>
  \<open>!k\<close> for the result of \<open>staticPropName\<close>: \<open>null\<close> and the empty string are
  both falsy.
\<close>

definition falsy_name :: "string option \<Rightarrow> bool" where
  "falsy_name k = (k = None \<or> k = Some [])"

text \<open>
  \<open>extractReturnedNumericArrayFromFunction\<close> (source lines 76 to 83): the first
  return statement of the function body, if its argument is an array literal; each
  element that is not a numeric literal (a hole too) becomes \<open>null\<close>.
\<close>

definition numeric_element :: "node option \<Rightarrow> int option" where
  "numeric_element el = (case el of Some (NumericLiteral v) \<Rightarrow> Some v | _ \<Rightarrow> None)"

definition extractReturnedNumericArrayFromFunction :: "node \<Rightarrow> int option list option" where
  "extractReturnedNumericArrayFromFunction fnNode =
     (case fnNode of
        FunctionExpression params (BlockStatement body) \<Rightarrow>
          (case find isReturnStatement body of
             Some (ReturnStatement (Some (ArrayExpression elements))) \<Rightarrow>
               Some (map numeric_element elements)
           | _ \<Rightarrow> None)
      | _ \<Rightarrow> None)"

section \<open>Decoded values\<close>

text \<open>
  What \<open>JSON.parse\<close> returns. A \<open>JObject\<close> lists the own properties of the object
  in the order of \<open>Object.keys\<close>.
\<close>

datatype json =
    JNull
  | JString string
  | JNumber int
  | JBool bool
  | JArray "json list"
  | JObject "(string \<times> json) list"

text \<open>
  What reading a property gives: a JSON value, or something that is none of the
  kinds \<open>valueToAst\<close> tests for (\<open>undefined\<close> for a property that does not exist,
  a function for an inherited method such as \<open>toString\<close>).
\<close>

datatype jsval = Val json | Other

text \<open>
  \<open>valueToAst\<close> (source lines 52 to 66). On a JSON value one of the six tests of the
  source applies; on \<open>Other\<close> none does and the function returns \<open>undefined\<close>.
  \<open>t.objectProperty(key, value)\<close> builds a property that is not computed.
\<close>

fun valueToAst_json :: "json \<Rightarrow> node" where
  "valueToAst_json JNull = NullLiteral"
| "valueToAst_json (JString v) = StringLiteral v"
| "valueToAst_json (JNumber v) = NumericLiteral v"
| "valueToAst_json (JBool v) = BooleanLiteral v"
| "valueToAst_json (JArray v) = ArrayExpression (map (\<lambda>x. Some (valueToAst_json x)) v)"
| "valueToAst_json (JObject v) =
     ObjectExpression (map (\<lambda>(k, x). ObjectProperty (StringLiteral k) (valueToAst_json x) False) v)"

fun valueToAst :: "jsval \<Rightarrow> node option" where
  "valueToAst (Val v) = Some (valueToAst_json v)"
| "valueToAst Other = None"

text \<open>
  An own property of a decoded table: a key of an object, an index of an array written
  in decimal without leading zeros.
\<close>

fun own_entry :: "json \<Rightarrow> string \<Rightarrow> json option" where
  "own_entry (JObject kvs) p = map_of kvs p"
| "own_entry (JArray xs) p =
     (case find (\<lambda>i. dec_nat i = p) [0..<length xs] of
        Some i \<Rightarrow> Some (xs ! i)
      | None \<Rightarrow> None)"
| "own_entry _ p = None"

text \<open>
  \<open>table[propName]\<close> (source line 154) for a table that is an object or an array, the
  only tables that pass the test of line 153. \<open>length\<close> of an array is its number
  of elements. Any other property that is not an own entry is looked up along the
  prototype chain: \<open>__proto__\<close> is the prototype object itself, \<open>Object.prototype\<close> (an
  object with no enumerable key, which \<open>valueToAst\<close> turns into the same node as
  \<open>{}\<close>) or \<open>Array.prototype\<close> (an array of length 0, turned into the same node as
  \<open>[]\<close>); every other inherited property is a method, and a name that is nowhere on
  the chain gives \<open>undefined\<close>.
\<close>

fun table_get :: "json \<Rightarrow> string \<Rightarrow> jsval" where
  "table_get (JObject kvs) p =
     (case own_entry (JObject kvs) p of
        Some v \<Rightarrow> Val v
      | None \<Rightarrow> if p = ''__proto__'' then Val (JObject []) else Other)"
| "table_get (JArray xs) p =
     (case own_entry (JArray xs) p of
        Some v \<Rightarrow> Val v
      | None \<Rightarrow> if p = ''length'' then Val (JNumber (int (length xs)))
                else if p = ''__proto__'' then Val (JArray []) else Other)"
| "table_get _ p = Other"

text \<open>
  The test \<open>!table || typeof table !== 'object'\<close> of line 153, where \<open>table\<close> is
  \<open>decoded[keyName]\<close>: \<open>undefined\<close>, \<open>null\<close>, strings, numbers and booleans are
  rejected; arrays and objects pass.
\<close>

fun usable_table :: "json option \<Rightarrow> bool" where
  "usable_table (Some (JArray xs)) = True"
| "usable_table (Some (JObject kvs)) = True"
| "usable_table _ = False"

text \<open>
  \<open>decoded.t[i]\<close> for a constant index \<open>i\<close> (source lines 116 to 120). Reading a
  property of \<open>null\<close> throws a \<open>TypeError\<close>; a string gives its character at \<open>i\<close>;
  numbers and booleans have no index properties.
\<close>

datatype error = SyntaxError | TypeError | InvalidCharacterError | RangeError

fun get_index :: "json \<Rightarrow> nat \<Rightarrow> error + jsval" where
  "get_index JNull i = Inl TypeError"
| "get_index (JArray xs) i = Inr (if i < length xs then Val (xs ! i) else Other)"
| "get_index (JObject kvs) i =
     Inr (case map_of kvs (dec_nat i) of Some v \<Rightarrow> Val v | None \<Rightarrow> Other)"
| "get_index (JString v) i = Inr (if i < length v then Val (JString [v ! i]) else Other)"
| "get_index _ i = Inr Other"

section \<open>Traversal\<close>

text \<open>
  \<open>traverse.default(ast, visitor)\<close> walks the tree depth first and calls the visitor
  of a node type when it enters a node of that type, before its children.

  \<open>preorder n\<close> lists the nodes below and including \<open>n\<close> in the order in which they
  are entered. The two scans that only read the tree (the extraction of source lines 90
  to 108 and the collection of lines 171 to 186) are folds over this list.
\<close>

fun preorder :: "node \<Rightarrow> node list" where
  "preorder (Identifier name) = [Identifier name]"
| "preorder (StringLiteral v) = [StringLiteral v]"
| "preorder (NumericLiteral v) = [NumericLiteral v]"
| "preorder (BooleanLiteral v) = [BooleanLiteral v]"
| "preorder NullLiteral = [NullLiteral]"
| "preorder (ArrayExpression els) =
     ArrayExpression els # concat (map (\<lambda>el. case el of None \<Rightarrow> [] | Some x \<Rightarrow> preorder x) els)"
| "preorder (ObjectExpression ps) = ObjectExpression ps # concat (map preorder ps)"
| "preorder (ObjectProperty k v c) = ObjectProperty k v c # preorder k @ preorder v"
| "preorder (MemberExpression ob pr c) = MemberExpression ob pr c # preorder ob @ preorder pr"
| "preorder (OptionalMemberExpression ob pr c) =
     OptionalMemberExpression ob pr c # preorder ob @ preorder pr"
| "preorder (AssignmentExpression op l r) = AssignmentExpression op l r # preorder l @ preorder r"
| "preorder (UpdateExpression op pre a) = UpdateExpression op pre a # preorder a"
| "preorder (UnaryExpression op a) = UnaryExpression op a # preorder a"
| "preorder (BinaryExpression op l r) = BinaryExpression op l r # preorder l @ preorder r"
| "preorder (CallExpression f args) = CallExpression f args # preorder f @ concat (map preorder args)"
| "preorder (FunctionExpression ps b) =
     FunctionExpression ps b # concat (map preorder ps) @ preorder b"
| "preorder (BlockStatement body) = BlockStatement body # concat (map preorder body)"
| "preorder (ReturnStatement a) =
     ReturnStatement a # (case a of None \<Rightarrow> [] | Some x \<Rightarrow> preorder x)"
| "preorder (ExpressionStatement e) = ExpressionStatement e # preorder e"
| "preorder (Program body) = Program body # concat (map preorder body)"

text \<open>
  A scan that replaces nodes. \<open>map_children g n\<close> visits the children of \<open>n\<close> with
  \<open>g\<close>, which is given the name of the field that holds the child (for a child in a
  list, the name of the list), and rebuilds \<open>n\<close> from the results; \<open>None\<close> means
  that a visit did not return.
\<close>

definition visit_list :: "(node \<Rightarrow> node option) \<Rightarrow> node list \<Rightarrow> node list option" where
  "visit_list g xs = those (map g xs)"

definition visit_element :: "(node \<Rightarrow> node option) \<Rightarrow> node option \<Rightarrow> node option option" where
  "visit_element g el = (case el of None \<Rightarrow> Some None | Some x \<Rightarrow> map_option Some (g x))"

fun map_children :: "(string \<Rightarrow> node \<Rightarrow> node option) \<Rightarrow> node \<Rightarrow> node option" where
  "map_children g (Identifier name) = Some (Identifier name)"
| "map_children g (StringLiteral v) = Some (StringLiteral v)"
| "map_children g (NumericLiteral v) = Some (NumericLiteral v)"
| "map_children g (BooleanLiteral v) = Some (BooleanLiteral v)"
| "map_children g NullLiteral = Some NullLiteral"
| "map_children g (ArrayExpression els) =
     map_option ArrayExpression (those (map (visit_element (g ''elements'')) els))"
| "map_children g (ObjectExpression ps) =
     map_option ObjectExpression (visit_list (g ''properties'') ps)"
| "map_children g (ObjectProperty k v c) =
     Option.bind (g ''key'' k) (\<lambda>k'. Option.bind (g ''value'' v) (\<lambda>v'. Some (ObjectProperty k' v' c)))"
| "map_children g (MemberExpression ob pr c) =
     Option.bind (g ''object'' ob) (\<lambda>ob'.
       Option.bind (g ''property'' pr) (\<lambda>pr'. Some (MemberExpression ob' pr' c)))"
| "map_children g (OptionalMemberExpression ob pr c) =
     Option.bind (g ''object'' ob) (\<lambda>ob'.
       Option.bind (g ''property'' pr) (\<lambda>pr'. Some (OptionalMemberExpression ob' pr' c)))"
| "map_children g (AssignmentExpression op l r) =
     Option.bind (g ''left'' l) (\<lambda>l'.
       Option.bind (g ''right'' r) (\<lambda>r'. Some (AssignmentExpression op l' r')))"
| "map_children g (UpdateExpression op pre a) =
     map_option (UpdateExpression op pre) (g ''argument'' a)"
| "map_children g (UnaryExpression op a) = map_option (UnaryExpression op) (g ''argument'' a)"
| "map_children g (BinaryExpression op l r) =
     Option.bind (g ''left'' l) (\<lambda>l'.
       Option.bind (g ''right'' r) (\<lambda>r'. Some (BinaryExpression op l' r')))"
| "map_children g (CallExpression f args) =
     Option.bind (g ''callee'' f) (\<lambda>f'.
       Option.bind (visit_list (g ''arguments'') args) (\<lambda>args'. Some (CallExpression f' args')))"
| "map_children g (FunctionExpression ps b) =
     Option.bind (visit_list (g ''params'') ps) (\<lambda>ps'.
       Option.bind (g ''body'' b) (\<lambda>b'. Some (FunctionExpression ps' b')))"
| "map_children g (BlockStatement body) = map_option BlockStatement (visit_list (g ''body'') body)"
| "map_children g (ReturnStatement a) =
     map_option ReturnStatement (visit_element (g ''argument'') a)"
| "map_children g (ExpressionStatement e) = map_option ExpressionStatement (g ''expression'' e)"
| "map_children g (Program body) = map_option Program (visit_list (g ''body'') body)"

text \<open>
  A \<open>MemberExpression\<close> visitor gets the parent of the node, the field of the parent
  that holds the node, and the node; it returns the node to put in its place
  (\<open>path.replaceWith\<close>) or \<open>None\<close> when it returns without replacing.
\<close>

type_synonym visitor = "node \<Rightarrow> string \<Rightarrow> node \<Rightarrow> node option"

text \<open>
  \<open>traverse fuel v parent key n\<close> visits \<open>n\<close>. When the visitor replaces the node, the
  replacement is queued and visited in its turn: the visitor is called on it and its
  children are visited, while the children of the replaced node are not.
  \<open>replaceWith\<close> does nothing when the replacement is the node itself (in a tree of
  values: when it equals the node), and the visit goes on into the children. A chain of replacements need not end (the scan of lines
  189 to 214 puts back expressions that may hold further matches), so the function
  counts the depth of the visit: \<open>None\<close> is a visit that does not return within
  \<open>fuel\<close> nested visits.
\<close>

fun traverse :: "nat \<Rightarrow> visitor \<Rightarrow> node \<Rightarrow> string \<Rightarrow> node \<Rightarrow> node option" where
  "traverse 0 v parent key n = None"
| "traverse (Suc fuel) v parent key n =
     (case (if isMemberExpression n then v parent key n else None) of
        Some repl \<Rightarrow>
          if repl = n then map_children (traverse fuel v n) n
          else traverse fuel v parent key repl
      | None \<Rightarrow> map_children (traverse fuel v n) n)"

text \<open>The scan of a whole tree starts at the children of the root.\<close>

definition traverse_ast :: "nat \<Rightarrow> visitor \<Rightarrow> node \<Rightarrow> node option" where
  "traverse_ast fuel v ast = map_children (traverse fuel v ast) ast"

section \<open>1. Extracting the arrays of the \<open>a.i.*\<close> functions\<close>

text \<open>
  The \<open>AssignmentExpression\<close> visitor of source lines 91 to 107, as a step on the
  object \<open>extracted\<close>. \<open>left.object.object\<close> and \<open>left.object.property\<close> are
  \<open>undefined\<close> when \<open>left.object\<close> is not a member expression.
\<close>

type_synonym arrays = "string \<rightharpoonup> int option list"

definition table_keys :: "string list" where
  "table_keys = [''t'', ''z'', ''u'', ''l'', ''I'', ''uB'']"

definition extract_visit :: "node \<Rightarrow> arrays \<Rightarrow> arrays" where
  "extract_visit n ex =
     (case n of
        AssignmentExpression op left right \<Rightarrow>
          (case left of
             MemberExpression lobj lprop lc \<Rightarrow>
               fold (\<lambda>key ex'.
                       if isIdentifier (object_of lobj) ''a'' \<and>
                          isIdentifier (property_of lobj) ''i'' \<and>
                          isIdentifier (Some lprop) key
                       then (case extractReturnedNumericArrayFromFunction right of
                               Some arr \<Rightarrow> ex'(key \<mapsto> arr)
                             | None \<Rightarrow> ex')
                       else ex')
                    table_keys ex
           | _ \<Rightarrow> ex)
      | _ \<Rightarrow> ex)"

definition extract_arrays :: "node \<Rightarrow> arrays" where
  "extract_arrays tr = fold extract_visit (tl (preorder tr)) Map.empty"

section \<open>2. Decoding the arrays\<close>

text \<open>
  \<open>String.fromCharCode.apply(null, b)\<close>: no unit at all when \<open>b\<close> is \<open>undefined\<close>;
  otherwise each number modulo \<open>2 ^ 16\<close>, and the unit 0 for \<open>null\<close>.
\<close>

definition fromCharCode_apply :: "int option list option \<Rightarrow> jsstring" where
  "fromCharCode_apply b =
     (case b of
        None \<Rightarrow> []
      | Some xs \<Rightarrow> map (\<lambda>x. case x of None \<Rightarrow> 0 | Some n \<Rightarrow> word_of_int n) xs)"

text \<open>
  \<open>JSON.parse\<close> and \<open>atob\<close> belong to the platform; the decode functions take them
  as the parameters \<open>parse\<close> and \<open>atob\<close>. \<open>atob\<close> is applied to whatever
  \<open>decoded.t[i]\<close> is.
\<close>

type_synonym parser = "jsstring \<Rightarrow> error + json"
type_synonym base64 = "jsval \<Rightarrow> error + jsstring"

text \<open>\<open>decodeArray\<close> (source lines 42 to 45).\<close>

definition decodeArray :: "parser \<Rightarrow> base64 \<Rightarrow> int option list option \<Rightarrow> jsval \<Rightarrow> error + json" where
  "decodeArray parse atob b c =
     (let units = fromCharCode_apply b in
      case atob c of
        Inl err \<Rightarrow> Inl err
      | Inr key \<Rightarrow> parse (xor_js units key))"

text \<open>
  The state of the script: the tree and the three top-level objects \<open>extracted\<close>,
  \<open>decoded\<close> and \<open>gMap\<close>. A run that throws is \<open>Inl\<close> of the error and of the
  state in which it was thrown.
\<close>

record state =
  ast :: node
  extracted :: arrays
  decoded :: "string \<rightharpoonup> json"
  gMap :: "string \<rightharpoonup> node"

type_synonym outcome = "(error \<times> state) + state"

definition and_then :: "outcome \<Rightarrow> (state \<Rightarrow> outcome) \<Rightarrow> outcome" where
  "and_then r f = (case r of Inl x \<Rightarrow> Inl x | Inr s \<Rightarrow> f s)"

text \<open>Source line 115.\<close>

definition decode_t :: "parser \<Rightarrow> state \<Rightarrow> outcome" where
  "decode_t parse s =
     (case parse (fromCharCode_apply (extracted s ''t'')) of
        Inl err \<Rightarrow> Inl (err, s)
      | Inr v \<Rightarrow> Inr (s\<lparr>decoded := (decoded s)(''t'' \<mapsto> v)\<rparr>))"

text \<open>
  One of the source lines 116 to 120: \<open>decoded.key = decodeArray(extracted.key, decoded.t[i])\<close>.
\<close>

definition decode_key :: "parser \<Rightarrow> base64 \<Rightarrow> string \<Rightarrow> nat \<Rightarrow> state \<Rightarrow> outcome" where
  "decode_key parse atob key i s =
     (case decoded s ''t'' of
        None \<Rightarrow> Inl (TypeError, s)
      | Some tv \<Rightarrow>
          (case get_index tv i of
             Inl err \<Rightarrow> Inl (err, s)
           | Inr c \<Rightarrow>
               (case decodeArray parse atob (extracted s key) c of
                  Inl err \<Rightarrow> Inl (err, s)
                | Inr v \<Rightarrow> Inr (s\<lparr>decoded := (decoded s)(key \<mapsto> v)\<rparr>))))"

definition decode_phase :: "parser \<Rightarrow> base64 \<Rightarrow> state \<Rightarrow> outcome" where
  "decode_phase parse atob s =
     and_then (decode_t parse s) (\<lambda>s.
     and_then (decode_key parse atob ''z'' 4 s) (\<lambda>s.
     and_then (decode_key parse atob ''u'' 6 s) (\<lambda>s.
     and_then (decode_key parse atob ''l'' 8 s) (\<lambda>s.
     and_then (decode_key parse atob ''I'' 2 s) (\<lambda>s.
     decode_key parse atob ''uB'' 0 s)))))"

section \<open>Write positions\<close>

text \<open>
  The three tests both replacing visitors make on \<open>path.parent\<close> (source lines 132
  to 134 and 206 to 208). In a tree, \<open>parent.left === node\<close> says that the node is
  held by the field \<open>left\<close> of its parent, and \<open>parent.argument === node\<close> that it
  is held by \<open>argument\<close>.
\<close>

definition assignment_left :: "node \<Rightarrow> string \<Rightarrow> bool" where
  "assignment_left parent key =
     (case parent of AssignmentExpression op l r \<Rightarrow> key = ''left'' | _ \<Rightarrow> False)"

definition update_argument :: "node \<Rightarrow> string \<Rightarrow> bool" where
  "update_argument parent key =
     (case parent of UpdateExpression op pre a \<Rightarrow> key = ''argument'' | _ \<Rightarrow> False)"

definition delete_operand :: "node \<Rightarrow> bool" where
  "delete_operand parent =
     (case parent of UnaryExpression op a \<Rightarrow> op = ''delete'' | _ \<Rightarrow> False)"

definition write_position :: "node \<Rightarrow> string \<Rightarrow> bool" where
  "write_position parent key =
     (assignment_left parent key \<or> update_argument parent key \<or> delete_operand parent)"

section \<open>3. Replacing the \<open>a.H.<key>\<close> values\<close>

text \<open>The \<open>MemberExpression\<close> visitor of source lines 127 to 161.\<close>

definition resolve_visit :: "number_names \<Rightarrow> (string \<rightharpoonup> json) \<Rightarrow> visitor" where
  "resolve_visit str dec parent key outer =
     (if assignment_left parent key then None
      else if update_argument parent key then None
      else if delete_operand parent then None
      else
        (case outer of
           MemberExpression inner oprop oc \<Rightarrow>
             (case inner of
                MemberExpression aH iprop ic \<Rightarrow>
                  (case aH of
                     MemberExpression aobj aprop ac \<Rightarrow>
                       if \<not> isIdentifier (Some aobj) ''a'' then None
                       else if \<not> isIdentifier (Some aprop) ''H'' then None
                       else
                         (let keyName = staticPropName str iprop in
                          if falsy_name keyName \<or>
                             the keyName \<notin> set [''z'', ''u'', ''l'', ''I'', ''uB'']
                          then None
                          else
                            (let propName = staticPropName str oprop in
                             if falsy_name propName then None
                             else
                               (let table = dec (the keyName) in
                                if \<not> usable_table table then None
                                else valueToAst (table_get (the table) (the propName)))))
                   | _ \<Rightarrow> None)
              | _ \<Rightarrow> None)
         | _ \<Rightarrow> None))"

section \<open>4. Replacing the \<open>a.G.<key>\<close> values\<close>

text \<open>
  The collecting \<open>AssignmentExpression\<close> visitor of source lines 172 to 185, as a step
  on \<open>gMap\<close>; \<open>gMap.set\<close> overwrites an earlier entry of the same key.
\<close>

definition collect_visit :: "number_names \<Rightarrow> node \<Rightarrow> (string \<rightharpoonup> node) \<Rightarrow> (string \<rightharpoonup> node)" where
  "collect_visit str n gm =
     (case n of
        AssignmentExpression op left right \<Rightarrow>
          (case left of
             MemberExpression lobj lprop lc \<Rightarrow>
               if isIdentifier (object_of lobj) ''a'' \<and> isIdentifier (property_of lobj) ''G''
               then (let k = staticPropName str lprop in
                     if falsy_name k then gm else gm(the k \<mapsto> right))
               else gm
           | _ \<Rightarrow> gm)
      | _ \<Rightarrow> gm)"

definition collect :: "number_names \<Rightarrow> node \<Rightarrow> (string \<rightharpoonup> node)" where
  "collect str tr = fold (collect_visit str) (tl (preorder tr)) Map.empty"



text \<open>
  The replacing \<open>MemberExpression\<close> visitor of source lines 190 to 213. The tree of
  this development holds values, so the node put back is a copy of the recorded one;
  the source puts back the recorded node itself.
\<close>

definition inline_visit :: "number_names \<Rightarrow> (string \<rightharpoonup> node) \<Rightarrow> visitor" where
  "inline_visit str gm parent key n =
     (case n of
        MemberExpression nobj nprop nc \<Rightarrow>
          if isIdentifier (object_of nobj) ''a'' \<and> isIdentifier (property_of nobj) ''G''
          then (let k = staticPropName str nprop in
                if falsy_name k then None
                else
                  (case gm (the k) of
                     None \<Rightarrow> None
                   | Some repl \<Rightarrow>
                       if assignment_left parent key then None
                       else if update_argument parent key then None
                       else if delete_operand parent then None
                       else Some repl))
          else None
      | _ \<Rightarrow> None)"

section \<open>The whole run\<close>

text \<open>
  Source lines 89 to 214 in their order: extraction, decoding, the resolving scan, the
  collecting scan, the inlining scan. A scan that does not return within \<open>fuel\<close>
  nested visits is the error \<open>RangeError\<close> (the call stack is exhausted), reported
  with the state in which the scan began.
\<close>

definition initial :: "node \<Rightarrow> state" where
  "initial tr = \<lparr>ast = tr, extracted = Map.empty, decoded = Map.empty, gMap = Map.empty\<rparr>"

definition extract_phase :: "state \<Rightarrow> state" where
  "extract_phase s = s\<lparr>extracted := extract_arrays (ast s)\<rparr>"

definition resolve_phase :: "nat \<Rightarrow> number_names \<Rightarrow> state \<Rightarrow> outcome" where
  "resolve_phase fuel str s =
     (case traverse_ast fuel (resolve_visit str (decoded s)) (ast s) of
        None \<Rightarrow> Inl (RangeError, s)
      | Some tr \<Rightarrow> Inr (s\<lparr>ast := tr\<rparr>))"

definition collect_phase :: "number_names \<Rightarrow> state \<Rightarrow> state" where
  "collect_phase str s = s\<lparr>gMap := collect str (ast s)\<rparr>"

definition inline_phase :: "nat \<Rightarrow> number_names \<Rightarrow> state \<Rightarrow> outcome" where
  "inline_phase fuel str s =
     (case traverse_ast fuel (inline_visit str (gMap s)) (ast s) of
        None \<Rightarrow> Inl (RangeError, s)
      | Some tr \<Rightarrow> Inr (s\<lparr>ast := tr\<rparr>))"

definition run :: "nat \<Rightarrow> number_names \<Rightarrow> parser \<Rightarrow> base64 \<Rightarrow> node \<Rightarrow> outcome" where
  "run fuel str parse atob tr =
     and_then (decode_phase parse atob (extract_phase (initial tr))) (\<lambda>s.
     and_then (resolve_phase fuel str s) (\<lambda>s.
     inline_phase fuel str (collect_phase str s)))"

section \<open>Properties of the XOR transform\<close>

lemma xor_loop_acc: "xor_loop e d c b m = m @ xor_loop e d c b []"
proof (induction b arbitrary: c m)
  case Nil
  show ?case by simp
next
  case (Cons l b)
  show ?case
    by (simp add: Let_def Cons.IH [of _ "m @ _"] Cons.IH [of _ "[_]"])
qed

lemma xor_loop_Cons:
  "xor_loop e d c (l # b) [] =
     (if l AND 224 \<noteq> 0 then l XOR e ! c else l) #
     xor_loop e d (if c + 1 = d then 0 else c + 1) b []"
  by (simp add: Let_def xor_loop_acc [of _ _ _ _ "[_]"])

lemma mask31_224: "((x :: unit16) AND 31) AND 224 = 0"
  by (simp add: and.assoc)

lemma xor_masked_224: "(k :: unit16) AND 224 = 0 \<Longrightarrow> (l XOR k) AND 224 = l AND 224"
  by (simp add: bit.conj_xor_distrib2)

lemma xor_e_nth: "c < xor_d key \<Longrightarrow> xor_e key ! c = key ! c AND 31"
  by (simp add: xor_e_def)

lemma low_unit_224: "unat (l :: unit16) \<le> 31 \<Longrightarrow> l AND 224 = 0"
proof -
  assume "unat l \<le> 31"
  then have "l < 2 ^ 5" by (simp add: word_less_nat_alt)
  then have "l AND mask 5 = l" by (rule less_mask_eq)
  then have "l AND 224 = (l AND mask 5) AND 224" by simp
  also have "\<dots> = l AND (mask 5 AND 224)" by (simp only: and.assoc)
  also have "(mask 5 :: unit16) AND 224 = 0" by (simp add: mask_eq_exp_minus_1)
  finally show ?thesis by simp
qed

text \<open>
  Applying the loop twice from the same index gives the input back, whatever the
  units: a unit below 32 is kept both times, and a unit that is changed keeps its
  bits 5 to 7, so it is changed back.
\<close>

lemma xor_loop_twice:
  "c < d \<Longrightarrow> \<forall>i<d. e ! i AND 224 = 0 \<Longrightarrow> xor_loop e d c (xor_loop e d c b []) [] = b"
proof (induction b arbitrary: c)
  case Nil
  show ?case by simp
next
  case (Cons l b)
  let ?c' = "if c + 1 = d then 0 else c + 1"
  have c': "?c' < d" using Cons.prems(1) by auto
  have k: "e ! c AND 224 = 0" using Cons.prems by simp
  have "(l XOR e ! c) XOR e ! c = l" by (simp add: xor.assoc)
  with k show ?case
    using Cons.IH [OF c' Cons.prems(2)]
    by (simp add: xor_loop_Cons xor_masked_224 del: xor_loop.simps)
qed

lemma xor_js_twice: "xor_js (xor_js b c) c = b"
proof (cases "c = []")
  case True
  then show ?thesis by (simp add: xor_js_def)
next
  case False
  then have d: "0 < xor_d c" by (simp add: xor_d_def)
  have "\<forall>i<xor_d c. xor_e c ! i AND 224 = 0" by (simp add: xor_e_nth mask31_224)
  with d False show ?thesis by (simp add: xor_js_def xor_loop_twice)
qed

lemma xor_loop_length: "length (xor_loop e d c b []) = length b"
proof (induction b arbitrary: c)
  case Nil
  show ?case by simp
next
  case (Cons l b)
  then show ?case by (simp add: xor_loop_Cons del: xor_loop.simps)
qed

text \<open>The unit at position \<open>h\<close> meets the key unit of index \<open>(c + h) mod d\<close>.\<close>

lemma xor_loop_nth:
  "c < d \<Longrightarrow> h < length b \<Longrightarrow>
   xor_loop e d c b [] ! h =
     (if b ! h AND 224 \<noteq> 0 then b ! h XOR e ! ((c + h) mod d) else b ! h)"
proof (induction b arbitrary: c h)
  case Nil
  then show ?case by simp
next
  case (Cons l b)
  let ?c' = "if c + 1 = d then 0 else c + 1"
  have c': "?c' < d" using Cons.prems(1) by auto
  show ?case
  proof (cases h)
    case 0
    with Cons.prems show ?thesis by (simp add: xor_loop_Cons del: xor_loop.simps)
  next
    case (Suc h')
    then have h': "h' < length b" using Cons.prems by simp
    have "(?c' + h') mod d = (c + h) mod d"
    proof (cases "c + 1 = d")
      case True
      have "(d + h') mod d = h' mod d" by simp
      moreover have "c + h = d + h'" using True Suc by simp
      ultimately show ?thesis using True by simp
    next
      case False
      with Suc show ?thesis by simp
    qed
    with Cons.IH [OF c' h'] Suc show ?thesis
      by (simp add: xor_loop_Cons del: xor_loop.simps)
  qed
qed

lemma xor_js_length: "length (xor_js b key) = length b"
  by (simp add: xor_js_def xor_loop_length)

lemma xor_js_nth:
  assumes "key \<noteq> []" and "h < length b"
  shows "xor_js b key ! h =
           (if b ! h AND 224 \<noteq> 0 then b ! h XOR (key ! (h mod xor_d key) AND 31) else b ! h)"
proof -
  from assms(1) have d: "0 < xor_d key" by (simp add: xor_d_def)
  then have "h mod xor_d key < xor_d key" by simp
  then have "xor_e key ! (h mod xor_d key) = key ! (h mod xor_d key) AND 31"
    by (rule xor_e_nth)
  with assms d show ?thesis
    using xor_loop_nth [of 0 "xor_d key" h b "xor_e key"] by (simp add: xor_js_def)
qed

text \<open>
  C1. For every sequence of units that all satisfy \<open>(unit & 0xE0) != 0\<close> and every
  non-empty key, applying the raw XOR transform \<open>xor\<close> twice with the same key gives
  the sequence back.
\<close>

theorem xor_involution:
  assumes "\<forall>u \<in> set b. u AND 224 \<noteq> 0" and "c \<noteq> []"
  shows "xor_js (xor_js b c) c = b"
  by (rule xor_js_twice)

theorem xor_involution_witness:
  "(104 :: unit16) AND 224 \<noteq> 0 \<and> (105 :: unit16) AND 224 \<noteq> 0 \<and> [107 :: unit16] \<noteq> [] \<and>
   xor_js [104, 105] [107] = [99, 98] \<and>
   xor_js (xor_js [104, 105] [107]) [107] = [104, 105]"
proof -
  have h1: "\<forall>u \<in> set [104, 105 :: unit16]. u AND 224 \<noteq> 0" by simp
  have h2: "[107 :: unit16] \<noteq> []" by simp
  have "xor_js [104, 105] [107 :: unit16] = [99, 98]"
    by (simp add: xor_js_def xor_d_def xor_e_def)
  with h1 h2 xor_involution [OF h1 h2] show ?thesis by simp
qed

text \<open>
  C6. A unit of value at most 31 is put out unchanged at its position, whatever the
  key, and the rolling index still advances past it: one pass of the loop on such a
  unit appends the unit itself and goes on with the index \<open>(c + 1) mod d\<close>, and the
  unit after it at position \<open>h + 1\<close> meets the key unit of index \<open>(h + 1) mod d\<close>,
  where \<open>d\<close> is the key length capped at 32.
\<close>

theorem xor_control_unit:
  assumes "h < length b" and "unat (b ! h) \<le> 31"
  shows "xor_js b key ! h = b ! h \<and>
         (\<forall>e d c rest m. c < d \<longrightarrow>
            xor_loop e d c (b ! h # rest) m = xor_loop e d ((c + 1) mod d) rest (m @ [b ! h])) \<and>
         (key \<noteq> [] \<longrightarrow> Suc h < length b \<longrightarrow>
            xor_js b key ! Suc h =
              (if b ! Suc h AND 224 \<noteq> 0
               then b ! Suc h XOR (key ! (Suc h mod min (length key) 32) AND 31)
               else b ! Suc h))"
proof (intro conjI allI impI)
  have low: "b ! h AND 224 = 0" using assms(2) by (rule low_unit_224)
  show "xor_js b key ! h = b ! h"
  proof (cases "key = []")
    case True
    then show ?thesis by (simp add: xor_js_def)
  next
    case False
    with assms(1) low show ?thesis by (simp add: xor_js_nth)
  qed
  show "xor_loop e d c (b ! h # rest) m = xor_loop e d ((c + 1) mod d) rest (m @ [b ! h])"
    if "c < d" for e d c rest m
  proof -
    have "(c + 1) mod d = (if c + 1 = d then 0 else c + 1)" using that by auto
    with low show ?thesis by (simp add: Let_def)
  qed
  show "xor_js b key ! Suc h =
          (if b ! Suc h AND 224 \<noteq> 0
           then b ! Suc h XOR (key ! (Suc h mod min (length key) 32) AND 31)
           else b ! Suc h)"
    if "key \<noteq> []" and "Suc h < length b"
  proof -
    have "xor_d key = min (length key) 32" by (simp add: xor_d_def)
    with that show ?thesis using xor_js_nth [of key "Suc h" b] by simp
  qed
qed

theorem xor_control_unit_witness:
  "0 < length [10, 104 :: unit16] \<and> unat ([10, 104 :: unit16] ! 0) \<le> 31 \<and>
   xor_js [10, 104] [107, 100] = [10, 108]"
proof -
  have h1: "0 < length [10, 104 :: unit16]" by simp
  have h2: "unat ([10, 104 :: unit16] ! 0) \<le> 31" by simp
  have "xor_js [10, 104] [107, 100 :: unit16] = [10, 108]"
    by (simp add: xor_js_def xor_d_def xor_e_def)
  with h1 h2 xor_control_unit [OF h1 h2, of "[107, 100]"] show ?thesis by simp
qed

text \<open>
  C7. With the empty key string the XOR transform returns the sequence unchanged.
\<close>

theorem xor_empty_key: "xor_js b [] = b"
  by (simp add: xor_js_def)

section \<open>Properties of the decode phase\<close>

text \<open>
  In the closed examples of this and the following sections the parameter \<open>str\<close> is
  the decimal conversion of a natural number. No example holds a numeric literal as a
  property, so the conversion is never applied in them.
\<close>

lemma decode_t_cases:
  "(\<exists>err. decode_t parse s = Inl (err, s)) \<or>
   (\<exists>v. decode_t parse s = Inr (s\<lparr>decoded := (decoded s)(''t'' \<mapsto> v)\<rparr>))"
  by (auto simp: decode_t_def split: sum.split)

lemma decode_key_cases:
  "(\<exists>err. decode_key parse atob key i s = Inl (err, s)) \<or>
   (\<exists>v. decode_key parse atob key i s = Inr (s\<lparr>decoded := (decoded s)(key \<mapsto> v)\<rparr>))"
  by (auto simp: decode_key_def split: sum.split option.split)

lemma decode_t_Inl: "decode_t parse s = Inl (err, s') \<Longrightarrow> s' = s"
  using decode_t_cases [of parse s] by auto

lemma decode_t_Inr:
  "decode_t parse s = Inr s' \<Longrightarrow> ast s' = ast s \<and> extracted s' = extracted s \<and> gMap s' = gMap s"
  using decode_t_cases [of parse s] by auto

lemma decode_key_Inl: "decode_key parse atob key i s = Inl (err, s') \<Longrightarrow> s' = s"
  using decode_key_cases [of parse atob key i s] by auto

lemma decode_key_Inr:
  "decode_key parse atob key i s = Inr s' \<Longrightarrow>
     ast s' = ast s \<and> extracted s' = extracted s \<and> gMap s' = gMap s"
  using decode_key_cases [of parse atob key i s] by auto

lemma decode_phase_Inl:
  assumes "decode_phase parse atob s = Inl (err, s')"
  shows "ast s' = ast s \<and> extracted s' = extracted s \<and> gMap s' = gMap s"
  using assms unfolding decode_phase_def and_then_def
  by (auto split: sum.splits dest!: decode_t_Inl decode_t_Inr decode_key_Inl decode_key_Inr)

lemma decode_phase_Inr:
  assumes "decode_phase parse atob s = Inr s'"
  shows "ast s' = ast s \<and> extracted s' = extracted s \<and> gMap s' = gMap s"
  using assms unfolding decode_phase_def and_then_def
  by (auto split: sum.splits dest!: decode_t_Inr decode_key_Inr)

text \<open>
  C8. If a decode step fails (\<open>atob\<close> or \<open>JSON.parse\<close> throws for one of the six
  tables), the tree is still the tree the parser produced: the error is thrown in a state
  whose tree is the parsed one and whose alias map is empty, and the run ends there,
  before the first replacing scan.
\<close>

theorem decode_failure_keeps_tree:
  assumes "decode_phase parse atob (extract_phase (initial tr)) = Inl (err, s)"
  shows "ast s = tr \<and> gMap s = Map.empty \<and> run fuel str parse atob tr = Inl (err, s)"
proof -
  from decode_phase_Inl [OF assms]
  have "ast s = tr" and "gMap s = Map.empty" by (simp_all add: extract_phase_def initial_def)
  moreover have "run fuel str parse atob tr = Inl (err, s)"
    using assms by (simp add: run_def and_then_def)
  ultimately show ?thesis by simp
qed

theorem decode_failure_keeps_tree_witness:
  "decode_phase (\<lambda>s. Inl SyntaxError) (\<lambda>c. Inl InvalidCharacterError)
      (extract_phase (initial (Program []))) =
     Inl (SyntaxError, \<lparr>ast = Program [], extracted = Map.empty, decoded = Map.empty, gMap = Map.empty\<rparr>) \<and>
   run 3 (\<lambda>n. dec_nat (nat n)) (\<lambda>s. Inl SyntaxError) (\<lambda>c. Inl InvalidCharacterError) (Program []) =
     Inl (SyntaxError, \<lparr>ast = Program [], extracted = Map.empty, decoded = Map.empty, gMap = Map.empty\<rparr>)"
proof -
  have h: "decode_phase (\<lambda>s. Inl SyntaxError) (\<lambda>c. Inl InvalidCharacterError)
      (extract_phase (initial (Program []))) =
     Inl (SyntaxError, \<lparr>ast = Program [], extracted = Map.empty, decoded = Map.empty, gMap = Map.empty\<rparr>)"
    by (simp add: decode_phase_def decode_t_def and_then_def extract_phase_def initial_def
        extract_arrays_def)
  from decode_failure_keeps_tree [OF h, of 3] h show ?thesis by simp
qed

lemma xor_js_Nil: "xor_js [] k = []"
  by (simp add: xor_js_def)

lemma decode_t_missing:
  "extracted s ''t'' = None \<Longrightarrow> parse [] = Inl e0 \<Longrightarrow> decode_t parse s = Inl (e0, s)"
  by (simp add: decode_t_def fromCharCode_apply_def)

lemma decode_key_missing:
  "extracted s key = None \<Longrightarrow> parse [] = Inl e0 \<Longrightarrow>
   \<exists>err. decode_key parse atob key i s = Inl (err, s)"
  by (simp add: decode_key_def decodeArray_def fromCharCode_apply_def xor_js_Nil
      split: option.split sum.split)

text \<open>
  A decode step of another key leaves the tree alone and decodes nothing under \<open>key\<close>.
\<close>

lemma decode_t_keeps:
  assumes "key \<noteq> ''t''" and "ast s = tr \<and> extracted s key = None \<and> decoded s key = None"
  shows "case decode_t parse s of
           Inl (err, s') \<Rightarrow> ast s' = tr \<and> decoded s' key = None
         | Inr s' \<Rightarrow> ast s' = tr \<and> extracted s' key = None \<and> decoded s' key = None"
  using assms decode_t_cases [of parse s] by auto

lemma decode_key_keeps:
  assumes "key \<noteq> k" and "ast s = tr \<and> extracted s key = None \<and> decoded s key = None"
  shows "case decode_key parse atob k i s of
           Inl (err, s') \<Rightarrow> ast s' = tr \<and> decoded s' key = None
         | Inr s' \<Rightarrow> ast s' = tr \<and> extracted s' key = None \<and> decoded s' key = None"
  using assms decode_key_cases [of parse atob k i s] by auto

lemma decode_key_stops:
  assumes "parse [] = Inl e0" and "ast s = tr \<and> extracted s key = None \<and> decoded s key = None"
  shows "\<exists>err s'. decode_key parse atob key i s = Inl (err, s') \<and> ast s' = tr \<and> decoded s' key = None"
  using assms decode_key_missing [of s key parse e0 atob i] by auto

lemma and_then_stops:
  assumes "\<exists>err s'. r = Inl (err, s') \<and> P s'"
  shows "\<exists>err s'. and_then r f = Inl (err, s') \<and> P s'"
  using assms by (auto simp: and_then_def)

lemma and_then_goes_on:
  assumes "case r of Inl (err, s') \<Rightarrow> P s' | Inr s' \<Rightarrow> Q s'"
    and "\<And>s'. Q s' \<Longrightarrow> \<exists>err s''. f s' = Inl (err, s'') \<and> P s''"
  shows "\<exists>err s'. and_then r f = Inl (err, s') \<and> P s'"
  using assms by (auto simp: and_then_def split: sum.splits)

lemma decode_phase_missing:
  assumes key: "key \<in> set table_keys"
    and inv: "ast s = tr \<and> extracted s key = None \<and> decoded s key = None"
    and parse: "parse [] = Inl e0"
  shows "\<exists>err s'. decode_phase parse atob s = Inl (err, s') \<and> ast s' = tr \<and> decoded s' key = None"
proof -
  let ?P = "\<lambda>s'. ast s' = tr \<and> decoded s' key = None"
  let ?Q = "\<lambda>s'. ast s' = tr \<and> extracted s' key = None \<and> decoded s' key = None"
  from key consider "key = ''t''" | "key = ''z''" | "key = ''u''" | "key = ''l''" | "key = ''I''"
    | "key = ''uB''"
    by (auto simp: table_keys_def)
  then show ?thesis
  proof cases
    case 1
    with inv parse have "decode_t parse s = Inl (e0, s)" by (simp add: decode_t_missing)
    with inv show ?thesis by (simp add: decode_phase_def and_then_def)
  next
    case 2
    show ?thesis unfolding decode_phase_def
      apply (rule and_then_goes_on [where P = ?P and Q = ?Q])
       apply (rule decode_t_keeps [OF _ inv], simp add: 2)
      apply (rule and_then_stops)
      apply (simp only: 2 [symmetric])
      apply (rule decode_key_stops [where parse = parse and ?e0.0 = e0, OF parse], assumption)
      done
  next
    case 3
    show ?thesis unfolding decode_phase_def
      apply (rule and_then_goes_on [where P = ?P and Q = ?Q])
       apply (rule decode_t_keeps [OF _ inv], simp add: 3)
      apply (rule and_then_goes_on [where P = ?P and Q = ?Q])
       apply (rule decode_key_keeps, simp add: 3, assumption)
      apply (rule and_then_stops)
      apply (simp only: 3 [symmetric])
      apply (rule decode_key_stops [where parse = parse and ?e0.0 = e0, OF parse], assumption)
      done
  next
    case 4
    show ?thesis unfolding decode_phase_def
      apply (rule and_then_goes_on [where P = ?P and Q = ?Q])
       apply (rule decode_t_keeps [OF _ inv], simp add: 4)
      apply (rule and_then_goes_on [where P = ?P and Q = ?Q])
       apply (rule decode_key_keeps, simp add: 4, assumption)
      apply (rule and_then_goes_on [where P = ?P and Q = ?Q])
       apply (rule decode_key_keeps, simp add: 4, assumption)
      apply (rule and_then_stops)
      apply (simp only: 4 [symmetric])
      apply (rule decode_key_stops [where parse = parse and ?e0.0 = e0, OF parse], assumption)
      done
  next
    case 5
    show ?thesis unfolding decode_phase_def
      apply (rule and_then_goes_on [where P = ?P and Q = ?Q])
       apply (rule decode_t_keeps [OF _ inv], simp add: 5)
      apply (rule and_then_goes_on [where P = ?P and Q = ?Q])
       apply (rule decode_key_keeps, simp add: 5, assumption)
      apply (rule and_then_goes_on [where P = ?P and Q = ?Q])
       apply (rule decode_key_keeps, simp add: 5, assumption)
      apply (rule and_then_goes_on [where P = ?P and Q = ?Q])
       apply (rule decode_key_keeps, simp add: 5, assumption)
      apply (rule and_then_stops)
      apply (simp only: 5 [symmetric])
      apply (rule decode_key_stops [where parse = parse and ?e0.0 = e0, OF parse], assumption)
      done
  next
    case 6
    show ?thesis unfolding decode_phase_def
      apply (rule and_then_goes_on [where P = ?P and Q = ?Q])
       apply (rule decode_t_keeps [OF _ inv], simp add: 6)
      apply (rule and_then_goes_on [where P = ?P and Q = ?Q])
       apply (rule decode_key_keeps, simp add: 6, assumption)
      apply (rule and_then_goes_on [where P = ?P and Q = ?Q])
       apply (rule decode_key_keeps, simp add: 6, assumption)
      apply (rule and_then_goes_on [where P = ?P and Q = ?Q])
       apply (rule decode_key_keeps, simp add: 6, assumption)
      apply (rule and_then_goes_on [where P = ?P and Q = ?Q])
       apply (rule decode_key_keeps, simp add: 6, assumption)
      apply (simp only: 6 [symmetric])
      apply (rule decode_key_stops [where parse = parse and ?e0.0 = e0, OF parse], assumption)
      done
  qed
qed

text \<open>
  C9, as amended. If the array of one of the six identifiers was not extracted, the run
  fails: it throws during the decode phase, no later than the decode step of that
  identifier (which parses the empty text), with the tree as parsed and the missing
  table never decoded. Tables earlier in the decode order may have been decoded by then.
\<close>

theorem missing_array_is_fatal:
  assumes "key \<in> set table_keys" and "extract_arrays tr key = None" and "parse [] = Inl e0"
  shows "\<exists>err s. run fuel str parse atob tr = Inl (err, s) \<and> ast s = tr \<and> decoded s key = None"
proof -
  let ?s = "extract_phase (initial tr)"
  have "ast ?s = tr \<and> extracted ?s key = None \<and> decoded ?s key = None"
    using assms(2) by (simp add: extract_phase_def initial_def)
  from decode_phase_missing [where parse = parse and ?e0.0 = e0, OF assms(1) this assms(3)]
  obtain err s' where "decode_phase parse atob ?s = Inl (err, s')" and "ast s' = tr"
    and "decoded s' key = None" by blast
  then show ?thesis by (auto simp: run_def and_then_def)
qed

theorem missing_array_is_fatal_witness:
  "''uB'' \<in> set table_keys \<and> extract_arrays (Program []) ''uB'' = None \<and>
   (\<lambda>s. Inl SyntaxError :: error + json) [] = Inl SyntaxError \<and>
   (\<exists>err s. run 0 (\<lambda>n. dec_nat (nat n)) (\<lambda>s. Inl SyntaxError) (\<lambda>c. Inl InvalidCharacterError) (Program []) = Inl (err, s) \<and>
      ast s = Program [] \<and> decoded s ''uB'' = None)"
proof -
  have h1: "''uB'' \<in> set table_keys" by (simp add: table_keys_def)
  have h2: "extract_arrays (Program []) ''uB'' = None" by (simp add: extract_arrays_def)
  have h3: "(\<lambda>s. Inl SyntaxError :: error + json) [] = Inl SyntaxError" by simp
  from missing_array_is_fatal [where parse = "\<lambda>s. Inl SyntaxError" and ?e0.0 = SyntaxError, OF h1 h2 h3]
  show ?thesis using h1 h2 by simp
qed

lemma ex_tree_extract:
  "extract_arrays (Program [ExpressionStatement (AssignmentExpression ''=''
        (MemberExpression (MemberExpression (Identifier ''a'') (Identifier ''i'') False)
           (Identifier ''t'') False)
        (FunctionExpression [] (BlockStatement [ReturnStatement (Some (ArrayExpression
           [Some (NumericLiteral 91), Some (NumericLiteral 93)]))])))])
    = [''t'' \<mapsto> [Some 91, Some 93]]"
  by (simp add: extract_arrays_def extract_visit_def table_keys_def isIdentifier_def
      extractReturnedNumericArrayFromFunction_def numeric_element_def)

text \<open>
  C9 as stated fails: with the array of \<open>t\<close> extracted (the text \<open>[]\<close>) and the
  array of \<open>z\<close> missing, the run aborts in the decode step of \<open>z\<close>, after \<open>t\<close> has
  been decoded.
\<close>

theorem missing_array_counterexample:
  "run 0 (\<lambda>n. dec_nat (nat n)) (\<lambda>s. if s = [91, 93] then Inr (JArray []) else Inl SyntaxError)
         (\<lambda>c. Inl InvalidCharacterError)
         (Program [ExpressionStatement (AssignmentExpression ''=''
            (MemberExpression (MemberExpression (Identifier ''a'') (Identifier ''i'') False)
               (Identifier ''t'') False)
            (FunctionExpression [] (BlockStatement [ReturnStatement (Some (ArrayExpression
               [Some (NumericLiteral 91), Some (NumericLiteral 93)]))])))]) =
   Inl (InvalidCharacterError,
     \<lparr>ast = Program [ExpressionStatement (AssignmentExpression ''=''
            (MemberExpression (MemberExpression (Identifier ''a'') (Identifier ''i'') False)
               (Identifier ''t'') False)
            (FunctionExpression [] (BlockStatement [ReturnStatement (Some (ArrayExpression
               [Some (NumericLiteral 91), Some (NumericLiteral 93)]))])))],
      extracted = [''t'' \<mapsto> [Some 91, Some 93]],
      decoded = [''t'' \<mapsto> JArray []],
      gMap = Map.empty\<rparr>)"
  by (simp add: run_def and_then_def decode_phase_def decode_t_def decode_key_def
      decodeArray_def extract_phase_def initial_def ex_tree_extract fromCharCode_apply_def)

section \<open>Static property names\<close>



section \<open>Properties of the traversal\<close>

lemmas position_defs =
  write_position_def assignment_left_def update_argument_def delete_operand_def

lemma traverse_other:
  "\<not> isMemberExpression n \<Longrightarrow> traverse (Suc fuel) v parent key n = map_children (traverse fuel v n) n"
  by simp

lemma those_map_same: "(\<And>x. x \<in> set xs \<Longrightarrow> g x = Some x) \<Longrightarrow> those (map g xs) = Some xs"
  by (induction xs) simp_all

text \<open>
  The node \<open>valueToAst\<close> builds holds no member expression: a visit of it, with fuel
  above its size, gives it back.
\<close>

lemma literal_inert:
  "size (valueToAst_json j) < fuel \<Longrightarrow>
   traverse fuel v parent key (valueToAst_json j) = Some (valueToAst_json j)"
proof (induction j arbitrary: fuel parent key)
  case JNull
  then show ?case by (cases fuel) simp_all
next
  case (JString x)
  then show ?case by (cases fuel) simp_all
next
  case (JNumber x)
  then show ?case by (cases fuel) simp_all
next
  case (JBool x)
  then show ?case by (cases fuel) simp_all
next
  case (JArray xs)
  from JArray.prems obtain f where fuel: "fuel = Suc f" by (cases fuel) simp_all
  let ?n = "ArrayExpression (map (\<lambda>x. Some (valueToAst_json x)) xs)"
  have el: "visit_element (traverse f v ?n ''elements'') el = Some el"
    if "el \<in> set (map (\<lambda>x. Some (valueToAst_json x)) xs)" for el
  proof -
    from that obtain x where x: "x \<in> set xs" and el: "el = Some (valueToAst_json x)" by auto
    have "size (valueToAst_json x) \<le> size_list (size_option size) (map (\<lambda>x. Some (valueToAst_json x)) xs)"
      using x by (simp add: size_list_estimation' comp_def)
    with JArray.prems fuel have "size (valueToAst_json x) < f" by simp
    from JArray.IH [OF x this] el show ?thesis by (simp add: visit_element_def)
  qed
  show ?case
    using those_map_same [of "map (\<lambda>x. Some (valueToAst_json x)) xs"
        "visit_element (traverse f v ?n ''elements'')", OF el]
    by (simp add: fuel)
next
  case (JObject kvs)
  from JObject.prems obtain f where fuel: "fuel = Suc f" by (cases fuel) simp_all
  let ?ps = "map (\<lambda>(k, x). ObjectProperty (StringLiteral k) (valueToAst_json x) False) kvs"
  let ?n = "ObjectExpression ?ps"
  have pr: "traverse f v ?n ''properties'' p = Some p" if "p \<in> set ?ps" for p
  proof -
    from that obtain k x where kx: "(k, x) \<in> set kvs"
      and p: "p = ObjectProperty (StringLiteral k) (valueToAst_json x) False" by auto
    have "size p \<le> size_list size ?ps" by (rule size_list_estimation' [OF that order_refl])
    with JObject.prems fuel have "size p < f" by simp
    with p obtain f' where f: "f = Suc f'" and sz: "size (valueToAst_json x) < f'"
      by (cases f) simp_all
    from sz obtain f'' where f': "f' = Suc f''" by (cases f') simp_all
    have "x \<in> Basic_BNFs.snds (k, x)" by simp
    from JObject.IH [OF kx this sz] show ?thesis by (simp add: p f f')
  qed
  show ?case
    using those_map_same [of ?ps "traverse f v ?n ''properties''", OF pr]
    by (simp add: fuel visit_list_def)
qed

text \<open>More fuel never changes the result of a visit that returned.\<close>

lemma those_map_mono:
  "(\<And>x r. x \<in> set xs \<Longrightarrow> g x = Some r \<Longrightarrow> g' x = Some r) \<Longrightarrow>
   those (map g xs) = Some rs \<Longrightarrow> those (map g' xs) = Some rs"
proof (induction xs arbitrary: rs)
  case Nil
  then show ?case by simp
next
  case (Cons x xs)
  from Cons.prems(2) obtain r rs' where r: "g x = Some r" and rs': "those (map g xs) = Some rs'"
    and rs: "rs = r # rs'"
    by (auto split: option.splits)
  from Cons.prems(1) [of x r] r have "g' x = Some r" by simp
  moreover from Cons.IH [OF _ rs'] Cons.prems(1) have "those (map g' xs) = Some rs'" by simp
  ultimately show ?case using rs by simp
qed

lemma visit_list_mono:
  assumes "visit_list g xs = Some rs" and "\<And>x r. g x = Some r \<Longrightarrow> g' x = Some r"
  shows "visit_list g' xs = Some rs"
  using assms(1) unfolding visit_list_def by (rule those_map_mono [rotated]) (rule assms(2))

lemma visit_element_mono:
  assumes "visit_element g el = Some r" and "\<And>x r. g x = Some r \<Longrightarrow> g' x = Some r"
  shows "visit_element g' el = Some r"
  using assms by (auto simp: visit_element_def split: option.splits)

lemma map_children_mono:
  assumes g: "\<And>k c r. g k c = Some r \<Longrightarrow> g' k c = Some r"
    and n: "map_children g n = Some r"
  shows "map_children g' n = Some r"
proof (cases n)
  case (ArrayExpression els)
  with n obtain rs where rs: "those (map (visit_element (g ''elements'')) els) = Some rs"
    and r: "r = ArrayExpression rs" by auto
  have "those (map (visit_element (g' ''elements'')) els) = Some rs"
    using rs by (rule those_map_mono [rotated]) (rule visit_element_mono, assumption, rule g)
  with r ArrayExpression show ?thesis by simp
next
  case (ObjectExpression ps)
  with n obtain rs where rs: "visit_list (g ''properties'') ps = Some rs"
    and r: "r = ObjectExpression rs" by auto
  from rs have "visit_list (g' ''properties'') ps = Some rs" by (rule visit_list_mono) (rule g)
  with r ObjectExpression show ?thesis by simp
next
  case (CallExpression f args)
  with n obtain f' rs where f': "g ''callee'' f = Some f'"
    and rs: "visit_list (g ''arguments'') args = Some rs" and r: "r = CallExpression f' rs"
    by (auto simp: bind_eq_Some_conv)
  from rs have "visit_list (g' ''arguments'') args = Some rs" by (rule visit_list_mono) (rule g)
  with g [OF f'] r CallExpression show ?thesis by simp
next
  case (FunctionExpression ps b)
  with n obtain rs b' where rs: "visit_list (g ''params'') ps = Some rs"
    and b': "g ''body'' b = Some b'" and r: "r = FunctionExpression rs b'"
    by (auto simp: bind_eq_Some_conv)
  from rs have "visit_list (g' ''params'') ps = Some rs" by (rule visit_list_mono) (rule g)
  with g [OF b'] r FunctionExpression show ?thesis by simp
next
  case (BlockStatement body)
  with n obtain rs where rs: "visit_list (g ''body'') body = Some rs"
    and r: "r = BlockStatement rs" by auto
  from rs have "visit_list (g' ''body'') body = Some rs" by (rule visit_list_mono) (rule g)
  with r BlockStatement show ?thesis by simp
next
  case (Program body)
  with n obtain rs where rs: "visit_list (g ''body'') body = Some rs"
    and r: "r = Program rs" by auto
  from rs have "visit_list (g' ''body'') body = Some rs" by (rule visit_list_mono) (rule g)
  with r Program show ?thesis by simp
next
  case (ReturnStatement a)
  with n obtain a' where a': "visit_element (g ''argument'') a = Some a'"
    and r: "r = ReturnStatement a'" by auto
  from a' have "visit_element (g' ''argument'') a = Some a'" by (rule visit_element_mono) (rule g)
  with r ReturnStatement show ?thesis by simp
qed (use n g in \<open>auto simp: bind_eq_Some_conv\<close>)

lemma traverse_more_fuel:
  "traverse fuel v parent key n = Some r \<Longrightarrow> traverse (Suc fuel) v parent key n = Some r"
proof (induction fuel arbitrary: parent key n r)
  case 0
  then show ?case by simp
next
  case (Suc fuel)
  have step: "map_children (traverse (Suc fuel) v n) n = Some r"
    if "map_children (traverse fuel v n) n = Some r"
    by (rule map_children_mono [OF _ that]) (rule Suc.IH)
  show ?case
  proof (cases "if isMemberExpression n then v parent key n else None")
    case None
    with Suc.prems have "map_children (traverse fuel v n) n = Some r" by simp
    from step [OF this] None show ?thesis by (simp del: traverse.simps(2) add: traverse.simps(2) [of "Suc fuel"])
  next
    case (Some repl)
    show ?thesis
    proof (cases "repl = n")
      case True
      with Some Suc.prems have "map_children (traverse fuel v n) n = Some r" by simp
      from step [OF this] Some True show ?thesis
        by (simp del: traverse.simps(2) add: traverse.simps(2) [of "Suc fuel"])
    next
      case False
      with Some Suc.prems have "traverse fuel v parent key repl = Some r" by simp
      from Suc.IH [OF this] Some False show ?thesis
        by (simp del: traverse.simps(2) add: traverse.simps(2) [of "Suc fuel"])
    qed
  qed
qed

lemma traverse_fuel_mono:
  "traverse fuel v parent key n = Some r \<Longrightarrow> traverse (fuel + extra) v parent key n = Some r"
  by (induction extra) (simp_all add: traverse_more_fuel del: traverse.simps(2))

lemma traverse_ast_fuel_mono:
  "traverse_ast fuel v tr = Some r \<Longrightarrow> traverse_ast (fuel + extra) v tr = Some r"
  unfolding traverse_ast_def
  by (erule map_children_mono [rotated]) (rule traverse_fuel_mono)



section \<open>Properties of the resolving scan\<close>

lemma literal_not_member: "valueToAst_json j \<noteq> MemberExpression ob pr c"
  by (cases j) simp_all

lemma own_entry_usable: "own_entry table p = Some v \<Longrightarrow> usable_table (Some table)"
  by (cases table) simp_all

lemma own_entry_get: "own_entry table p = Some v \<Longrightarrow> table_get table p = Val v"
  by (cases table) simp_all

lemma static_leaf:
  "staticPropName str p = Some k \<Longrightarrow> traverse (Suc fuel) v parent key p = Some p"
  by (cases p) simp_all

lemma resolve_visit_read:
  assumes "\<not> write_position parent key"
    and "staticPropName str kp = Some tk" and "tk \<in> set [''z'', ''u'', ''l'', ''I'', ''uB'']"
    and "staticPropName str fp = Some field" and "field \<noteq> []"
    and "dec tk = Some table"
  shows "resolve_visit str dec parent key
           (MemberExpression
              (MemberExpression (MemberExpression (Identifier ''a'') (Identifier ''H'') c1) kp c2)
              fp c3) =
         (if usable_table (Some table) then valueToAst (table_get table field) else None)"
proof -
  from assms(3) have "tk \<noteq> []" by auto
  with assms show ?thesis
    by (auto simp: resolve_visit_def write_position_def isIdentifier_def falsy_name_def Let_def)
qed

text \<open>
  C3, as amended. A read of \<open>a.H.<key>.<field>\<close>, where \<open><key>\<close> is one of \<open>z\<close>,
  \<open>u\<close>, \<open>l\<close>, \<open>I\<close>, \<open>uB\<close>, \<open><field>\<close> is a static name that is not empty and the
  decoded table of \<open><key>\<close> has an entry for \<open><field>\<close>, is replaced as a whole by the
  literal that \<open>valueToAst\<close> builds from the entry; the visit returns it for any fuel
  above the size of the literal. The key and the field may be given by any node with a
  static name.
\<close>

theorem resolve_read_access:
  assumes "\<not> write_position parent key"
    and "staticPropName str kp = Some tk" and "tk \<in> set [''z'', ''u'', ''l'', ''I'', ''uB'']"
    and "staticPropName str fp = Some field" and "field \<noteq> []"
    and "dec tk = Some table" and "own_entry table field = Some v"
    and "size (valueToAst_json v) < fuel"
  shows "traverse (Suc fuel) (resolve_visit str dec) parent key
           (MemberExpression
              (MemberExpression (MemberExpression (Identifier ''a'') (Identifier ''H'') c1) kp c2)
              fp c3) =
         Some (valueToAst_json v)"
proof -
  have "resolve_visit str dec parent key
           (MemberExpression
              (MemberExpression (MemberExpression (Identifier ''a'') (Identifier ''H'') c1) kp c2)
              fp c3) = Some (valueToAst_json v)"
    using resolve_visit_read [where dec = dec, OF assms(1-6)] own_entry_usable [OF assms(7)] own_entry_get [OF assms(7)]
    by simp
  then show ?thesis
    using literal_not_member [of v] literal_inert [OF assms(8)] by simp
qed

theorem resolve_read_access_witness:
  "\<not> write_position (CallExpression (MemberExpression (Identifier ''console'') (Identifier ''log'') False) []) ''arguments'' \<and>
   own_entry (JObject [(''foo'', JNumber 42)]) ''foo'' = Some (JNumber 42) \<and>
   traverse_ast (Suc (Suc (Suc (Suc 0)))) (resolve_visit (\<lambda>n. dec_nat (nat n)) [''z'' \<mapsto> JObject [(''foo'', JNumber 42)]])
     (Program [ExpressionStatement
        (CallExpression (MemberExpression (Identifier ''console'') (Identifier ''log'') False)
           [MemberExpression
              (MemberExpression (MemberExpression (Identifier ''a'') (Identifier ''H'') False)
                 (Identifier ''z'') False)
              (Identifier ''foo'') False])]) =
   Some (Program [ExpressionStatement
        (CallExpression (MemberExpression (Identifier ''console'') (Identifier ''log'') False)
           [NumericLiteral 42])])"
proof -
  let ?str = "\<lambda>n. dec_nat (nat n)"
  let ?dec = "[''z'' \<mapsto> JObject [(''foo'', JNumber 42)]]"
  have h1: "\<not> write_position (CallExpression f xs) ''arguments''" for f xs
    by (simp add: write_position_def assignment_left_def update_argument_def delete_operand_def)
  have h2: "own_entry (JObject [(''foo'', JNumber 42)]) ''foo'' = Some (JNumber 42)" by simp
  have "traverse (Suc (Suc 0)) (resolve_visit ?str ?dec) (CallExpression f xs) ''arguments''
     (MemberExpression
              (MemberExpression (MemberExpression (Identifier ''a'') (Identifier ''H'') False)
                 (Identifier ''z'') False)
              (Identifier ''foo'') False) = Some (valueToAst_json (JNumber 42))" for f xs
    by (rule resolve_read_access [where dec = ?dec and str = ?str, OF h1, where tk = "''z''" and field = "''foo''"
          and table = "JObject [(''foo'', JNumber 42)]"]) simp_all
  then show ?thesis
    using h1 h2
    by (simp add: traverse_ast_def visit_list_def resolve_visit_def)
qed

text \<open>
  C3 as stated fails for the empty field name: the table \<open>{"": 7}\<close> has an entry for
  it, and the read \<open>f(a.H.z[""])\<close> is left as it is, because line 149 returns on every
  falsy name.
\<close>

theorem resolve_read_access_counterexample:
  "own_entry (JObject [([], JNumber 7)]) [] = Some (JNumber 7) \<and>
   traverse_ast (Suc (Suc (Suc (Suc (Suc (Suc 0))))))
     (resolve_visit (\<lambda>n. dec_nat (nat n)) [''z'' \<mapsto> JObject [([], JNumber 7)]])
     (Program [ExpressionStatement
        (CallExpression (Identifier ''f'')
           [MemberExpression
              (MemberExpression (MemberExpression (Identifier ''a'') (Identifier ''H'') False)
                 (Identifier ''z'') False)
              (StringLiteral []) True])]) =
   Some (Program [ExpressionStatement
        (CallExpression (Identifier ''f'')
           [MemberExpression
              (MemberExpression (MemberExpression (Identifier ''a'') (Identifier ''H'') False)
                 (Identifier ''z'') False)
              (StringLiteral []) True])])"
  by (simp add: traverse_ast_def visit_list_def resolve_visit_def position_defs isIdentifier_def
      falsy_name_def)

section \<open>Write positions under both scans\<close>

lemma write_position_resolve: "write_position parent key \<Longrightarrow> resolve_visit str dec parent key n = None"
  by (auto simp: resolve_visit_def write_position_def)

lemma write_position_inline: "write_position parent key \<Longrightarrow> inline_visit str gm parent key n = None"
  by (auto simp: inline_visit_def write_position_def Let_def split: node.split option.split)

lemma resolve_visit_short:
  "resolve_visit str dec parent key (MemberExpression (Identifier x) pr c) = None"
  "resolve_visit str dec parent key (MemberExpression (MemberExpression (Identifier x) pr' c') pr c) = None"
  by (simp_all add: resolve_visit_def)

lemma inline_visit_short:
  "inline_visit str gm parent key (MemberExpression (Identifier x) pr c) = None"
  by (simp add: inline_visit_def isIdentifier_def)

lemma inline_visit_other:
  "y \<noteq> ''G'' \<Longrightarrow>
   inline_visit str gm parent key (MemberExpression (MemberExpression ob (Identifier y) c') pr c) = None"
  by (simp add: inline_visit_def isIdentifier_def)

lemma inline_visit_deep:
  "inline_visit str gm parent key
     (MemberExpression (MemberExpression (MemberExpression ob pr'' c'') pr' c') pr c) = None"
  by (simp add: inline_visit_def isIdentifier_def)

text \<open>The resolving scan leaves an access of two levels, \<open>x.y.k\<close>, as it is.\<close>

lemma resolve_two_level:
  assumes "staticPropName str kp = Some k"
  shows "traverse (Suc (Suc (Suc fuel))) (resolve_visit str dec) parent key
           (MemberExpression (MemberExpression (Identifier x) (Identifier y) c1) kp c2) =
         Some (MemberExpression (MemberExpression (Identifier x) (Identifier y) c1) kp c2)"
  using static_leaf [OF assms] by (simp add: resolve_visit_short)

text \<open>
  C2, as amended. The node that is itself the left side of an assignment, the argument
  of an update or the operand of a \<open>delete\<close> is replaced by neither visitor; when it
  is an access \<open>a.H.<key>.<field>\<close> or \<open>a.G.<key>\<close> with static names, both scans
  give it back whole, whatever the tables hold.
\<close>

theorem write_target_kept:
  assumes "write_position parent key"
    and "staticPropName str kp = Some k" and "staticPropName str fp = Some f"
  shows "resolve_visit str dec parent key n = None \<and> inline_visit str gm parent key n = None \<and>
         traverse (Suc (Suc (Suc (Suc fuel)))) (resolve_visit str dec) parent key
           (MemberExpression
              (MemberExpression (MemberExpression (Identifier ''a'') (Identifier ''H'') c1) kp c2)
              fp c3) =
         Some (MemberExpression
              (MemberExpression (MemberExpression (Identifier ''a'') (Identifier ''H'') c1) kp c2)
              fp c3) \<and>
         traverse (Suc (Suc (Suc (Suc fuel)))) (inline_visit str gm) parent key
           (MemberExpression
              (MemberExpression (MemberExpression (Identifier ''a'') (Identifier ''H'') c1) kp c2)
              fp c3) =
         Some (MemberExpression
              (MemberExpression (MemberExpression (Identifier ''a'') (Identifier ''H'') c1) kp c2)
              fp c3) \<and>
         traverse (Suc (Suc (Suc fuel))) (inline_visit str gm) parent key
           (MemberExpression (MemberExpression (Identifier ''a'') (Identifier ''G'') c1) kp c2) =
         Some (MemberExpression (MemberExpression (Identifier ''a'') (Identifier ''G'') c1) kp c2)"
proof (intro conjI)
  show "resolve_visit str dec parent key n = None"
    using assms(1) by (rule write_position_resolve)
  show "inline_visit str gm parent key n = None"
    using assms(1) by (rule write_position_inline)
  show "traverse (Suc (Suc (Suc (Suc fuel)))) (resolve_visit str dec) parent key
           (MemberExpression
              (MemberExpression (MemberExpression (Identifier ''a'') (Identifier ''H'') c1) kp c2)
              fp c3) =
         Some (MemberExpression
              (MemberExpression (MemberExpression (Identifier ''a'') (Identifier ''H'') c1) kp c2)
              fp c3)"
    using write_position_resolve [OF assms(1)] resolve_two_level [OF assms(2)] static_leaf [OF assms(3)]
    by simp
  show "traverse (Suc (Suc (Suc (Suc fuel)))) (inline_visit str gm) parent key
           (MemberExpression
              (MemberExpression (MemberExpression (Identifier ''a'') (Identifier ''H'') c1) kp c2)
              fp c3) =
         Some (MemberExpression
              (MemberExpression (MemberExpression (Identifier ''a'') (Identifier ''H'') c1) kp c2)
              fp c3)"
    using static_leaf [OF assms(2)] static_leaf [OF assms(3)]
    by (simp add: inline_visit_deep inline_visit_other inline_visit_short)
  show "traverse (Suc (Suc (Suc fuel))) (inline_visit str gm) parent key
           (MemberExpression (MemberExpression (Identifier ''a'') (Identifier ''G'') c1) kp c2) =
         Some (MemberExpression (MemberExpression (Identifier ''a'') (Identifier ''G'') c1) kp c2)"
    using write_position_inline [OF assms(1)] static_leaf [OF assms(2)]
    by (simp add: inline_visit_short)
qed

theorem write_target_kept_witness:
  "write_position
     (UnaryExpression ''delete''
        (MemberExpression
           (MemberExpression (MemberExpression (Identifier ''a'') (Identifier ''H'') False)
              (Identifier ''z'') False)
           (Identifier ''foo'') False)) ''argument'' \<and>
   traverse_ast (Suc (Suc (Suc (Suc (Suc (Suc 0)))))) (resolve_visit (\<lambda>n. dec_nat (nat n)) [''z'' \<mapsto> JObject [(''foo'', JNumber 42)]])
     (Program
        [ExpressionStatement
           (UnaryExpression ''delete''
              (MemberExpression
                 (MemberExpression (MemberExpression (Identifier ''a'') (Identifier ''H'') False)
                    (Identifier ''z'') False)
                 (Identifier ''foo'') False)),
         ExpressionStatement
           (UpdateExpression ''++'' False
              (MemberExpression
                 (MemberExpression (MemberExpression (Identifier ''a'') (Identifier ''H'') False)
                    (Identifier ''z'') False)
                 (Identifier ''foo'') False))]) =
   Some (Program
        [ExpressionStatement
           (UnaryExpression ''delete''
              (MemberExpression
                 (MemberExpression (MemberExpression (Identifier ''a'') (Identifier ''H'') False)
                    (Identifier ''z'') False)
                 (Identifier ''foo'') False)),
         ExpressionStatement
           (UpdateExpression ''++'' False
              (MemberExpression
                 (MemberExpression (MemberExpression (Identifier ''a'') (Identifier ''H'') False)
                    (Identifier ''z'') False)
                 (Identifier ''foo'') False))])"
proof -
  let ?str = "\<lambda>n. dec_nat (nat n)"
  let ?dec = "[''z'' \<mapsto> JObject [(''foo'', JNumber 42)]]"
  let ?m = "MemberExpression
                 (MemberExpression (MemberExpression (Identifier ''a'') (Identifier ''H'') False)
                    (Identifier ''z'') False)
                 (Identifier ''foo'') False"
  have d: "write_position (UnaryExpression ''delete'' ?m) ''argument''"
    by (simp add: position_defs)
  have u: "write_position (UpdateExpression ''++'' False ?m) ''argument''"
    by (simp add: position_defs)
  have k: "staticPropName ?str (Identifier ''z'') = Some ''z''"
    and f: "staticPropName ?str (Identifier ''foo'') = Some ''foo''" by simp_all
  from write_target_kept [OF d k f, where dec = ?dec and fuel = 0 and ?c1.0 = False and ?c2.0 = False
      and ?c3.0 = False,
      THEN conjunct2, THEN conjunct2, THEN conjunct1]
  have 1: "traverse (Suc (Suc (Suc (Suc 0)))) (resolve_visit ?str ?dec) (UnaryExpression ''delete'' ?m)
             ''argument'' ?m = Some ?m" .
  from write_target_kept [OF u k f, where dec = ?dec and fuel = 0 and ?c1.0 = False and ?c2.0 = False
      and ?c3.0 = False,
      THEN conjunct2, THEN conjunct2, THEN conjunct1]
  have 2: "traverse (Suc (Suc (Suc (Suc 0)))) (resolve_visit ?str ?dec) (UpdateExpression ''++'' False ?m)
             ''argument'' ?m = Some ?m" .
  show ?thesis
    using d 1 2 by (simp add: traverse_ast_def visit_list_def traverse_other del: traverse.simps(2))
qed

text \<open>
  C2 as stated fails for the nodes inside a target: in \<open>a.H.z.foo.bar = 5\<close> the access
  \<open>a.H.z.foo\<close> is the object of the target, its parent is a member expression, and the
  resolver replaces it by \<open>42\<close>.
\<close>

theorem write_target_counterexample:
  "traverse_ast (Suc (Suc (Suc (Suc (Suc (Suc 0)))))) (resolve_visit (\<lambda>n. dec_nat (nat n)) [''z'' \<mapsto> JObject [(''foo'', JNumber 42)]])
     (Program
        [ExpressionStatement
           (AssignmentExpression ''=''
              (MemberExpression
                 (MemberExpression
                    (MemberExpression (MemberExpression (Identifier ''a'') (Identifier ''H'') False)
                       (Identifier ''z'') False)
                    (Identifier ''foo'') False)
                 (Identifier ''bar'') False)
              (NumericLiteral 5))]) =
   Some (Program
        [ExpressionStatement
           (AssignmentExpression ''=''
              (MemberExpression (NumericLiteral 42) (Identifier ''bar'') False)
              (NumericLiteral 5))])"
  by (simp add: traverse_ast_def visit_list_def resolve_visit_def position_defs isIdentifier_def
      falsy_name_def)

section \<open>Lookups that miss\<close>

text \<open>
  A lookup that gives \<open>undefined\<close> or a function leaves the access as it is.
\<close>

lemma resolve_miss:
  assumes "staticPropName str kp = Some tk" and "staticPropName str fp = Some field"
    and "dec tk = Some table" and "table_get table field = Other"
  shows "traverse (Suc (Suc (Suc (Suc fuel)))) (resolve_visit str dec) parent key
           (MemberExpression
              (MemberExpression (MemberExpression (Identifier ''a'') (Identifier ''H'') c1) kp c2)
              fp c3) =
         Some (MemberExpression
              (MemberExpression (MemberExpression (Identifier ''a'') (Identifier ''H'') c1) kp c2)
              fp c3)"
proof -
  have "resolve_visit str dec parent key
           (MemberExpression
              (MemberExpression (MemberExpression (Identifier ''a'') (Identifier ''H'') c1) kp c2)
              fp c3) = None"
    using assms by (simp add: resolve_visit_def Let_def)
  then show ?thesis
    using resolve_two_level [OF assms(1)] static_leaf [OF assms(2)] by simp
qed

text \<open>
  C5. The table \<open>{foo: 42}\<close> has no entry \<open>__proto__\<close>, and yet the resolver replaces
  \<open>a.H.z.__proto__\<close> by \<open>{}\<close>: \<open>table[propName]\<close> finds the inherited property.
\<close>

theorem resolve_miss_inherited:
  "own_entry (JObject [(''foo'', JNumber 42)]) ''__proto__'' = None \<and>
   traverse_ast (Suc (Suc (Suc (Suc (Suc 0))))) (resolve_visit (\<lambda>n. dec_nat (nat n)) [''z'' \<mapsto> JObject [(''foo'', JNumber 42)]])
     (Program
        [ExpressionStatement
           (MemberExpression
              (MemberExpression (MemberExpression (Identifier ''a'') (Identifier ''H'') False)
                 (Identifier ''z'') False)
              (Identifier ''__proto__'') False)]) =
   Some (Program [ExpressionStatement (ObjectExpression [])])"
  by (simp add: traverse_ast_def visit_list_def resolve_visit_def position_defs isIdentifier_def
      falsy_name_def)

section \<open>Properties of the alias inliner\<close>












end
